theory Spec2Isabelle
  imports Main "HOL-Library.Sublist"
begin

section \<open>Texts and the Unicode tables behind the string built-ins\<close>

text \<open>
  A Python \<open>str\<close> is a sequence of Unicode code points, so a text is a list of
  natural numbers. Cyrillic literals of the source are written as code points, with a
  transliteration beside them.

  \<open>str.lower\<close>, \<open>str.strip\<close>, \<open>int\<close> and the regular-expression classes
  \<open>\d\<close> and \<open>\w\<close> are driven by the Unicode character database of the interpreter,
  which is not part of the repository. The database is a parameter of every function
  below: a record of the four tables that are consulted. Theorems quantify over it.
  (\<open>str.lower\<close> is the per-code-point mapping; the one context-sensitive row of
  Python, capital sigma U+03A3, is mapped by its table row like any other.)
\<close>

type_synonym ustr = "nat list"

record ucd =
  to_lower :: "nat \<Rightarrow> nat list"
  is_space :: "nat \<Rightarrow> bool"
  digit_val :: "nat \<Rightarrow> nat option"
  is_alnum :: "nat \<Rightarrow> bool"

text \<open>
  The rows of the database for Basic Latin and for the Cyrillic letters U+0400..U+045F,
  with the complete white-space table. It is used to run the functions on the example
  sentences; code points outside these rows are left caseless, non-digit and
  non-alphanumeric.
\<close>

definition ucd_basic :: ucd where
  "ucd_basic = \<lparr>
     to_lower = (\<lambda>c. if 65 \<le> c \<and> c \<le> 90 then [c + 32]
                      else if 1040 \<le> c \<and> c \<le> 1071 then [c + 32]
                      else if 1024 \<le> c \<and> c \<le> 1039 then [c + 80]
                      else [c]),
     is_space = (\<lambda>c. (9 \<le> c \<and> c \<le> 13) \<or> (28 \<le> c \<and> c \<le> 32) \<or> c = 133 \<or> c = 160
                      \<or> c = 5760 \<or> (8192 \<le> c \<and> c \<le> 8202) \<or> c = 8232 \<or> c = 8233
                      \<or> c = 8239 \<or> c = 8287 \<or> c = 12288),
     digit_val = (\<lambda>c. if 48 \<le> c \<and> c \<le> 57 then Some (c - 48) else None),
     is_alnum = (\<lambda>c. (48 \<le> c \<and> c \<le> 57) \<or> (65 \<le> c \<and> c \<le> 90) \<or> (97 \<le> c \<and> c \<le> 122)
                      \<or> (1024 \<le> c \<and> c \<le> 1119))
   \<rparr>"

text \<open>\<open>s.lower()\<close>\<close>

definition lower :: "ucd \<Rightarrow> ustr \<Rightarrow> ustr" where
  "lower db s = concat (map (to_lower db) s)"

text \<open>\<open>s.strip()\<close>: white space removed at both ends.\<close>

definition strip :: "ucd \<Rightarrow> ustr \<Rightarrow> ustr" where
  "strip db s = rev (dropWhile (is_space db) (rev (dropWhile (is_space db) s)))"

text \<open>\<open>s.split(c)\<close> for a one-character separator: never the empty list.\<close>

fun split :: "nat \<Rightarrow> ustr \<Rightarrow> ustr list" where
  "split c [] = [[]]"
| "split c (x # xs) =
     (if x = c then [] # split c xs
      else (case split c xs of [] \<Rightarrow> [[x]] | w # ws \<Rightarrow> (x # w) # ws))"

text \<open>\<open>sep.join(parts)\<close>\<close>

fun join :: "ustr \<Rightarrow> ustr list \<Rightarrow> ustr" where
  "join sep [] = []"
| "join sep [p] = p"
| "join sep (p # q # ps) = p @ sep @ join sep (q # ps)"

text \<open>
  \<open>p in s\<close> on strings is substring containment, \<^term>\<open>sublist p s\<close> of the library.
\<close>

section \<open>Regular expressions: the fragment of \<open>re\<close> the patterns use\<close>

text \<open>
  Character classes: \<open>\d\<close>, \<open>\w\<close> (alphanumeric or underscore), a code-point range,
  and the union of two classes inside brackets.
\<close>

datatype cclass = Digit | Word | Range nat nat | Union cclass cclass

fun in_class :: "ucd \<Rightarrow> cclass \<Rightarrow> nat \<Rightarrow> bool" where
  "in_class db Digit c = (digit_val db c \<noteq> None)"
| "in_class db Word c = (is_alnum db c \<or> c = 95)"
| "in_class db (Range a b) c = (a \<le> c \<and> c \<le> b)"
| "in_class db (Union k l) c = (in_class db k c \<or> in_class db l c)"

text \<open>
  Patterns: a literal, a greedy repetition \<open>k{m,n}\<close> of a class (\<open>+\<close> is \<open>{1,}\<close>),
  \<open>r?\<close>, \<open>r|s\<close>, concatenation, and the capturing group \<open>(r)\<close>. Every pattern of
  the source has at most one capturing group.
\<close>

datatype regex =
    Lit ustr
  | Rep cclass nat "nat option"
  | Opt regex
  | Alt regex regex
  | Seq regex regex
  | Group regex

text \<open>
  \<open>rmatch db r s\<close> lists the ways \<open>r\<close> matches a prefix of \<open>s\<close>, in the order the
  backtracking matcher of \<open>re\<close> tries them (greedy repetition first, left alternative
  first). Each way is the rest of the text and the text of group 1, if set.
\<close>

fun rmatch :: "ucd \<Rightarrow> regex \<Rightarrow> ustr \<Rightarrow> (ustr \<times> ustr option) list" where
  "rmatch db (Lit p) s = (if prefix p s then [(drop (length p) s, None)] else [])"
| "rmatch db (Rep k m n) s =
     (let run = length (takeWhile (in_class db k) s);
          top = (case n of None \<Rightarrow> run | Some b \<Rightarrow> min run b)
      in map (\<lambda>j. (drop j s, None)) (rev [m ..< Suc top]))"
| "rmatch db (Opt r) s = rmatch db r s @ [(s, None)]"
| "rmatch db (Alt r1 r2) s = rmatch db r1 s @ rmatch db r2 s"
| "rmatch db (Seq r1 r2) s =
     concat (map (\<lambda>(s1, g1). map (\<lambda>(s2, g2). (s2, if g2 = None then g1 else g2))
                                   (rmatch db r2 s1))
                 (rmatch db r1 s))"
| "rmatch db (Group r) s =
     map (\<lambda>(s1, g). (s1, Some (take (length s - length s1) s))) (rmatch db r s)"

text \<open>
  \<open>re.search(r, s)\<close>: the first start position, from the left, at which the pattern
  matches, and there the first way. The result is the match object, of which only
  \<open>group(1)\<close> is read; \<open>None\<close> when no position matches.
\<close>

datatype match = Match (group1: "ustr option")

fun search :: "ucd \<Rightarrow> regex \<Rightarrow> ustr \<Rightarrow> match option" where
  "search db r [] = (case rmatch db r [] of [] \<Rightarrow> None | (s1, g) # _ \<Rightarrow> Some (Match g))"
| "search db r (x # xs) =
     (case rmatch db r (x # xs) of [] \<Rightarrow> search db r xs | (s1, g) # _ \<Rightarrow> Some (Match g))"

section \<open>Dates, durations and \<open>int\<close>\<close>

text \<open>
  The exceptions that occur. All but \<open>CancelledError\<close> derive from \<open>Exception\<close>;
  \<open>asyncio.CancelledError\<close> derives from \<open>BaseException\<close> only, so that
  \<open>except Exception\<close> lets it pass.
\<close>

datatype error =
    OverflowError | ValueError | TypeError | AttributeError | OSError
  | TimeoutError | UnknownValueError | RequestError | CancelledError

definition is_Exception :: "error \<Rightarrow> bool" where
  "is_Exception e = (e \<noteq> CancelledError)"

text \<open>
  A naive \<open>datetime\<close> is its number of microseconds since 0001-01-01 00:00:00; the
  largest one, \<open>datetime.max\<close>, is 9999-12-31 23:59:59.999999, the last microsecond of
  day 3652059. A \<open>timedelta\<close> is a number of microseconds.
\<close>

type_synonym datetime = int

definition day :: int where
  "day = 86400000000"

definition datetime_max :: datetime where
  "datetime_max = 3652059 * day - 1"

text \<open>
  \<open>timedelta(days=d)\<close> and \<open>timedelta(weeks=w)\<close>: the constructor refuses more than
  999999999 days in either direction.
\<close>

definition timedelta_days :: "int \<Rightarrow> error + int" where
  "timedelta_days d = (if \<bar>d\<bar> > 999999999 then Inl OverflowError else Inr (d * day))"

definition timedelta_weeks :: "int \<Rightarrow> error + int" where
  "timedelta_weeks w = timedelta_days (7 * w)"

text \<open>\<open>t + delta\<close> on a datetime raises when the sum leaves the years 1..9999.\<close>

definition datetime_add :: "datetime \<Rightarrow> int \<Rightarrow> error + datetime" where
  "datetime_add t delta =
     (if 0 \<le> t + delta \<and> t + delta \<le> datetime_max then Inr (t + delta)
      else Inl OverflowError)"

text \<open>
  \<open>int(s)\<close> on a string: the decimal value when \<open>s\<close> is a non-empty string of
  decimal digits; \<open>ValueError\<close> otherwise, and also beyond the interpreter's limit of
  4300 digits for a conversion from text. (Signs, underscores and surrounding blanks,
  which \<open>int\<close> accepts too, cannot occur in what \<open>\d+\<close> captures.)
\<close>

definition int_max_str_digits :: nat where
  "int_max_str_digits = 4300"

definition decimal :: "ucd \<Rightarrow> ustr \<Rightarrow> nat option" where
  "decimal db s = map_option (foldl (\<lambda>a d. 10 * a + d) 0) (those (map (digit_val db) s))"

definition py_int :: "ucd \<Rightarrow> ustr \<Rightarrow> error + int" where
  "py_int db s =
     (if s = [] \<or> length s > int_max_str_digits then Inl ValueError
      else (case decimal db s of None \<Rightarrow> Inl ValueError | Some n \<Rightarrow> Inr (int n)))"

section \<open>\<open>nlp_utils.extract_task_info\<close>\<close>

text \<open>
  The six patterns of \<open>date_patterns\<close>, in the order of the source list.
  \<^item> \<open>k (\d{1,2}(?:omu|omu|omu|omu)? [A-Ya-ya]+)\<close>, the preposition U+043A
  \<^item> \<open>do (\d{1,2}(?:ogo|ogo|ogo|ogo)? [A-Ya-ya]+)\<close>, the preposition U+0434 U+043E
  \<^item> \<open>zavtra\<close> (tomorrow)
  \<^item> \<open>na sleduyushchey nedele\<close> (next week)
  \<^item> \<open>cherez (\d+) (?:den'|dnya|dney)\<close> (in N days)
  \<^item> \<open>cherez (\d+) (?:nedelyu|nedeli|nedel')\<close> (in N weeks)
  The class \<open>[A-Ya-ya]\<close> is U+0410..U+042F together with U+0430..U+044F.
\<close>

definition cyr_letters :: cclass where
  "cyr_letters = Union (Range 1040 1071) (Range 1072 1103)"

definition omu :: regex where
  "omu = Lit [1086, 1084, 1091]"

definition ogo :: regex where
  "ogo = Lit [1086, 1075, 1086]"

definition pat_k_date :: regex where
  "pat_k_date =
     Seq (Lit [1082, 32])
         (Group (Seq (Rep Digit 1 (Some 2))
                (Seq (Opt (Alt omu (Alt omu (Alt omu omu))))
                (Seq (Lit [32]) (Rep cyr_letters 1 None)))))"

definition pat_do_date :: regex where
  "pat_do_date =
     Seq (Lit [1076, 1086, 32])
         (Group (Seq (Rep Digit 1 (Some 2))
                (Seq (Opt (Alt ogo (Alt ogo (Alt ogo ogo))))
                (Seq (Lit [32]) (Rep cyr_letters 1 None)))))"

definition zavtra :: ustr where
  "zavtra = [1079, 1072, 1074, 1090, 1088, 1072]"

definition pat_zavtra :: regex where
  "pat_zavtra = Lit zavtra"

definition pat_next_week :: regex where
  "pat_next_week =
     Lit [1085, 1072, 32, 1089, 1083, 1077, 1076, 1091, 1102, 1097, 1077, 1081, 32,
          1085, 1077, 1076, 1077, 1083, 1077]"

definition cherez :: ustr where
  "cherez = [1095, 1077, 1088, 1077, 1079, 32]"

definition pat_cherez_days :: regex where
  "pat_cherez_days =
     Seq (Lit cherez)
    (Seq (Group (Rep Digit 1 None))
    (Seq (Lit [32])
         (Alt (Lit [1076, 1077, 1085, 1100])
         (Alt (Lit [1076, 1085, 1103])
              (Lit [1076, 1085, 1077, 1081])))))"

definition pat_cherez_weeks :: regex where
  "pat_cherez_weeks =
     Seq (Lit cherez)
    (Seq (Group (Rep Digit 1 None))
    (Seq (Lit [32])
         (Alt (Lit [1085, 1077, 1076, 1077, 1083, 1102])
         (Alt (Lit [1085, 1077, 1076, 1077, 1083, 1080])
              (Lit [1085, 1077, 1076, 1077, 1083, 1100])))))"

definition date_patterns :: "regex list" where
  "date_patterns =
     [pat_k_date, pat_do_date, pat_zavtra, pat_next_week, pat_cherez_days, pat_cherez_weeks]"

text \<open>
  \<open>int(match.group(1))\<close>: \<open>int(None)\<close> is a \<open>TypeError\<close>, were the group unset.
\<close>

definition int_group1 :: "ucd \<Rightarrow> match \<Rightarrow> error + int" where
  "int_group1 db m = (case group1 m of None \<Rightarrow> Inl TypeError | Some g \<Rightarrow> py_int db g)"

text \<open>\<open>datetime.now() + delta\<close>, where building \<open>delta\<close> may already have raised.\<close>

definition now_plus :: "datetime \<Rightarrow> error + int \<Rightarrow> error + datetime option" where
  "now_plus now delta =
     (case delta of
        Inl e \<Rightarrow> Inl e
      | Inr d \<Rightarrow> (case datetime_add now d of Inl e \<Rightarrow> Inl e | Inr t \<Rightarrow> Inr (Some t)))"

text \<open>
  The body of the loop for a pattern that matched: the \<open>if\<close>/\<open>elif\<close> chain on the
  pattern, then \<open>break\<close>. The two day-and-month patterns fall through the chain and
  leave \<open>due_date\<close> as it was, \<open>None\<close>.
\<close>

definition due_date_of_match :: "ucd \<Rightarrow> datetime \<Rightarrow> regex \<Rightarrow> match \<Rightarrow> error + datetime option" where
  "due_date_of_match db now pattern m =
     (if pattern = pat_zavtra then now_plus now (timedelta_days 1)
      else if pattern = pat_next_week then now_plus now (timedelta_days 7)
      else if pattern = pat_cherez_days then
        (case int_group1 db m of
           Inl e \<Rightarrow> Inl e
         | Inr days \<Rightarrow> now_plus now (timedelta_days days))
      else if pattern = pat_cherez_weeks then
        (case int_group1 db m of
           Inl e \<Rightarrow> Inl e
         | Inr weeks \<Rightarrow> now_plus now (timedelta_weeks weeks))
      else Inr None)"

text \<open>
  \<open>for pattern in date_patterns: match = re.search(pattern, text.lower()) ...\<close>: the
  loop over the remaining patterns; \<open>None\<close> when it runs to the end.
\<close>

fun due_date_loop :: "ucd \<Rightarrow> datetime \<Rightarrow> ustr \<Rightarrow> regex list \<Rightarrow> error + datetime option" where
  "due_date_loop db now text [] = Inr None"
| "due_date_loop db now text (pattern # rest) =
     (case search db pattern (lower db text) of
        None \<Rightarrow> due_date_loop db now text rest
      | Some m \<Rightarrow> due_date_of_match db now pattern m)"

text \<open>
  \<open>priority_indicators\<close>: a dictionary literal, iterated in insertion order, so an
  association list. High: \<open>srochno\<close>, \<open>srochnaya\<close>, \<open>vazhno\<close>, \<open>vazhnaya\<close>,
  \<open>vysokiy prioritet\<close>, \<open>prioritetnaya\<close>. Low: \<open>nizkiy prioritet\<close>, \<open>ne srochno\<close>,
  \<open>kogda budet vremya\<close>, \<open>ne prioritetnaya\<close>.
\<close>

definition srochno :: ustr where
  "srochno = [1089, 1088, 1086, 1095, 1085, 1086]"

definition prioritetnaya :: ustr where
  "prioritetnaya = [1087, 1088, 1080, 1086, 1088, 1080, 1090, 1077, 1090, 1085, 1072, 1103]"

definition high_indicators :: "ustr list" where
  "high_indicators =
     [srochno,
      [1089, 1088, 1086, 1095, 1085, 1072, 1103],
      [1074, 1072, 1078, 1085, 1086],
      [1074, 1072, 1078, 1085, 1072, 1103],
      [1074, 1099, 1089, 1086, 1082, 1080, 1081, 32, 1087, 1088, 1080, 1086, 1088, 1080,
       1090, 1077, 1090],
      prioritetnaya]"

definition nizkiy_prioritet :: ustr where
  "nizkiy_prioritet =
     [1085, 1080, 1079, 1082, 1080, 1081, 32, 1087, 1088, 1080, 1086, 1088, 1080, 1090,
      1077, 1090]"

definition ne_srochno :: ustr where
  "ne_srochno = [1085, 1077, 32] @ srochno"

definition kogda_budet_vremya :: ustr where
  "kogda_budet_vremya =
     [1082, 1086, 1075, 1076, 1072, 32, 1073, 1091, 1076, 1077, 1090, 32, 1074, 1088,
      1077, 1084, 1103]"

definition ne_prioritetnaya :: ustr where
  "ne_prioritetnaya = [1085, 1077, 32] @ prioritetnaya"

definition low_indicators :: "ustr list" where
  "low_indicators = [nizkiy_prioritet, ne_srochno, kogda_budet_vremya, ne_prioritetnaya]"

definition priority_indicators :: "(string \<times> ustr list) list" where
  "priority_indicators = [(''high'', high_indicators), (''low'', low_indicators)]"

text \<open>
  \<open>for p, indicators in priority_indicators.items(): if any(indicator in text_lower
  ...): priority = p; break\<close>, started from \<open>priority = "medium"\<close>.
\<close>

fun priority_loop :: "ustr \<Rightarrow> (string \<times> ustr list) list \<Rightarrow> string" where
  "priority_loop text_lower [] = ''medium''"
| "priority_loop text_lower ((p, indicators) # rest) =
     (if list_ex (\<lambda>indicator. sublist indicator text_lower) indicators then p
      else priority_loop text_lower rest)"

text \<open>
  The function. \<open>doc = nlp(text)\<close> is not read afterwards and is left out. The clock
  \<open>datetime.now()\<close> is the parameter \<open>now\<close>. The result is the returned tuple
  (title, description, due date, priority), or the exception that escaped.
\<close>

definition extract_task_info ::
  "ucd \<Rightarrow> datetime \<Rightarrow> ustr \<Rightarrow> error + (ustr \<times> ustr \<times> datetime option \<times> string)" where
  "extract_task_info db now text =
     (let title = strip db (split 46 text ! 0);
          description = (if length (split 46 text) > 1
                         then strip db (join [46] (drop 1 (split 46 text))) else []);
          priority = priority_loop (lower db text) priority_indicators
      in case due_date_loop db now text date_patterns of
           Inl e \<Rightarrow> Inl e
         | Inr due_date \<Rightarrow> Inr (title, description, due_date, priority))"

section \<open>\<open>nlp_utils.extract_user_mention\<close>\<close>

text \<open>\<open>mention_pattern = r'@(\w+)'\<close>, searched in the text as it is.\<close>

definition mention_pattern :: regex where
  "mention_pattern = Seq (Lit [64]) (Group (Rep Word 1 None))"

definition extract_user_mention :: "ucd \<Rightarrow> ustr \<Rightarrow> ustr option" where
  "extract_user_mention db text =
     (case search db mention_pattern text of
        None \<Rightarrow> None
      | Some m \<Rightarrow> group1 m)"

text \<open>
  The reference algorithm of the specification for the due date, in its words: the
  first pattern of the list that matches the lower-cased text governs; \<open>zavtra\<close> gives
  now + 1 day, \<open>na sleduyushchey nedele\<close> now + 7 days, \<open>cherez N\<close> days now + N days,
  \<open>cherez N\<close> weeks now + N weeks, a day-and-month pattern no date; no match, no date.
  \<open>N\<close> is the decimal value of the digits the pattern captured.
\<close>

definition captured_number :: "ucd \<Rightarrow> regex \<Rightarrow> ustr \<Rightarrow> int" where
  "captured_number db r s =
     (case search db r s of
        Some (Match (Some g)) \<Rightarrow> (case decimal db g of Some n \<Rightarrow> int n | None \<Rightarrow> 0)
      | _ \<Rightarrow> 0)"




section \<open>\<open>bot.convert_ogg_to_wav\<close> and \<open>bot.convert_voice_to_text\<close>\<close>

text \<open>
  The two functions call collaborators outside the program: the temporary-file
  library, the download of the voice payload, the \<open>ffmpeg\<close> process, the speech
  recogniser and the file system. A \<open>world\<close> fixes what each of these calls does during
  one call of \<open>convert_voice_to_text\<close>: it returns (\<open>Inr\<close>) or raises (\<open>Inl\<close>).
  \<^item> \<open>make_ogg\<close>, \<open>make_wav\<close>: the two \<open>NamedTemporaryFile(..., delete=False)\<close>
  \<^item> \<open>download\<close>: \<open>bot.download(voice)\<close> and writing the payload to the \<open>.ogg\<close> file
  \<^item> \<open>spawn\<close>: \<open>asyncio.create_subprocess_exec('ffmpeg', ...)\<close>
  \<^item> \<open>wait\<close>: \<open>asyncio.wait_for(process.communicate(), timeout=10.0)\<close>, which returns
    with the exit code of the process set, or raises \<open>TimeoutError\<close> after ten seconds
  \<^item> \<open>kill\<close>: \<open>process.kill()\<close>
  \<^item> \<open>read_audio\<close>: opening \<open>sr.AudioFile\<close> and \<open>recognizer.record\<close>
  \<^item> \<open>recognize\<close>: \<open>recognizer.recognize_google(audio_data, language='ru-RU')\<close>
  \<^item> \<open>unlink_ogg\<close>, \<open>unlink_wav\<close>: the two \<open>os.unlink\<close>
  Logging is taken not to raise.
\<close>

record world =
  make_ogg :: "error + unit"
  make_wav :: "error + unit"
  download :: "error + unit"
  spawn :: "error + unit"
  wait :: "error + int"
  kill :: "error + unit"
  read_audio :: "error + unit"
  recognize :: "error + ustr"
  unlink_ogg :: "error + unit"
  unlink_wav :: "error + unit"

text \<open>\<open>except Exception as e: ...; return v\<close> applied to a raised \<open>e\<close>.\<close>

definition except_Exception :: "error \<Rightarrow> 'a \<Rightarrow> error + 'a" where
  "except_Exception e v = (if is_Exception e then Inr v else Inl e)"

text \<open>
  \<open>convert_ogg_to_wav\<close>: \<open>True\<close> when \<open>ffmpeg\<close> exits with code 0 in time. A timeout
  kills the process and gives \<open>False\<close>; the outer handler turns every other
  \<open>Exception\<close>, also one raised by \<open>kill\<close>, into \<open>False\<close>.
\<close>

definition convert_ogg_to_wav :: "world \<Rightarrow> error + bool" where
  "convert_ogg_to_wav w =
     (case spawn w of
        Inl e \<Rightarrow> except_Exception e False
      | Inr _ \<Rightarrow>
          (case wait w of
             Inr returncode \<Rightarrow> Inr (returncode = 0)
           | Inl e \<Rightarrow>
               if e = TimeoutError then
                 (case kill w of Inl e' \<Rightarrow> except_Exception e' False | Inr _ \<Rightarrow> Inr False)
               else except_Exception e False))"

text \<open>
  The body of the inner \<open>try\<close>: conversion, then recognition. The result is the value
  of the \<open>return\<close> reached, or the exception raised.
\<close>

definition recognize_wav :: "world \<Rightarrow> error + ustr option" where
  "recognize_wav w =
     (case convert_ogg_to_wav w of
        Inl e \<Rightarrow> Inl e
      | Inr converted \<Rightarrow>
          if \<not> converted then Inr None
          else (case read_audio w of
                  Inl e \<Rightarrow> Inl e
                | Inr _ \<Rightarrow>
                    (case recognize w of
                       Inr text \<Rightarrow> Inr (Some text)
                     | Inl e \<Rightarrow>
                         if e = UnknownValueError then Inr None
                         else if e = RequestError then Inr None
                         else Inl e)))"

text \<open>
  The temporary files on disk, and the \<open>finally\<close> block: \<open>try: os.unlink(ogg);
  os.unlink(wav) except Exception: log\<close>. It gives the exception that leaves the block,
  if one does, and the files that remain.
\<close>

datatype tmpfile = Ogg | Wav

definition cleanup :: "world \<Rightarrow> tmpfile set \<Rightarrow> error option \<times> tmpfile set" where
  "cleanup w files =
     (case unlink_ogg w of
        Inl e \<Rightarrow> (if is_Exception e then None else Some e, files)
      | Inr _ \<Rightarrow>
          (case unlink_wav w of
             Inl e \<Rightarrow> (if is_Exception e then None else Some e, files - {Ogg})
           | Inr _ \<Rightarrow> (None, files - {Ogg} - {Wav})))"

text \<open>
  The \<open>with\<close> block inside the outer \<open>try\<close>: the two files are created, the payload
  is downloaded, and only then the \<open>try ... finally\<close> is entered. An exception of the
  \<open>finally\<close> block replaces the outcome of the body.
\<close>

definition with_tmpfiles :: "world \<Rightarrow> (error + ustr option) \<times> tmpfile set" where
  "with_tmpfiles w =
     (case make_ogg w of
        Inl e \<Rightarrow> (Inl e, {})
      | Inr _ \<Rightarrow>
          (case make_wav w of
             Inl e \<Rightarrow> (Inl e, {Ogg})
           | Inr _ \<Rightarrow>
               (case download w of
                  Inl e \<Rightarrow> (Inl e, {Ogg, Wav})
                | Inr _ \<Rightarrow>
                    (let body = recognize_wav w;
                         (escaping, files) = cleanup w {Ogg, Wav}
                     in (case escaping of None \<Rightarrow> body | Some e \<Rightarrow> Inl e, files)))))"

text \<open>
  \<open>convert_voice_to_text\<close>: the returned text or \<open>None\<close>, or the exception that
  escapes, together with the temporary files left on disk.
\<close>

definition convert_voice_to_text :: "world \<Rightarrow> (error + ustr option) \<times> tmpfile set" where
  "convert_voice_to_text w =
     (let (outcome, files) = with_tmpfiles w
      in (case outcome of Inl e \<Rightarrow> except_Exception e None | Inr text \<Rightarrow> Inr text, files))"

section \<open>\<open>bot.delete_task\<close>\<close>

text \<open>
  The rows of \<open>models.User\<close> and \<open>models.Task\<close> as far as the handler reads them, and
  the store: the users in row order and the tasks by primary key.
\<close>

record user =
  user_id :: int
  telegram_id :: "int option"

record task =
  title :: ustr
  creator_id :: "int option"
  assignee_id :: "int option"

record store =
  users :: "user list"
  tasks :: "int \<rightharpoonup> task"

text \<open>
  The message: the Telegram id of \<open>message.from_user\<close>, absent for a message without a
  sender, and \<open>message.text\<close> (a field name free of the keyword).
\<close>

record message =
  from_user :: "int option"
  message_text :: ustr

datatype reply =
    Bad_format | User_not_found | Task_not_found | Not_creator | Deleted int | Failed

text \<open>
  \<open>s.split(maxsplit=1)\<close>: the first word and, if anything but white space follows it,
  the rest of the text from its first non-blank character on.
\<close>

definition split_maxsplit1 :: "ucd \<Rightarrow> ustr \<Rightarrow> ustr list" where
  "split_maxsplit1 db s =
     (let s1 = dropWhile (is_space db) s;
          word = takeWhile (\<lambda>c. \<not> is_space db c) s1;
          rest = dropWhile (is_space db) (dropWhile (\<lambda>c. \<not> is_space db c) s1)
      in if s1 = [] then [] else if rest = [] then [word] else [word, rest])"

text \<open>
  The handler. \<open>task_id\<close> stays the text of the argument, and
  \<open>filter(Task.id == task_id)\<close> leaves its reading as a key to the database engine:
  \<open>key_of\<close> is that reading, a parameter. Queries and the commit are taken to
  succeed. The result is the store afterwards and the reply sent.
\<close>

definition delete_task ::
  "ucd \<Rightarrow> (ustr \<Rightarrow> int option) \<Rightarrow> store \<Rightarrow> message \<Rightarrow> store \<times> reply" where
  "delete_task db key_of st msg =
     (let args = split_maxsplit1 db (message_text msg) in
      if length args \<noteq> 2 then (st, Bad_format)
      else
        let task_id = args ! 1 in
        case from_user msg of
          None \<Rightarrow> (st, Failed)
        | Some sender \<Rightarrow>
            (case find (\<lambda>u. telegram_id u = Some sender) (users st) of
               None \<Rightarrow> (st, User_not_found)
             | Some current_user \<Rightarrow>
                 (case key_of task_id of
                    None \<Rightarrow> (st, Task_not_found)
                  | Some k \<Rightarrow>
                      (case tasks st k of
                         None \<Rightarrow> (st, Task_not_found)
                       | Some t \<Rightarrow>
                           if creator_id t \<noteq> Some (user_id current_user)
                           then (st, Not_creator)
                           else (st\<lparr>tasks := (tasks st)(k := None)\<rparr>, Deleted k)))))"

section \<open>Example inputs\<close>

text \<open>
  The two example sentences of the specification (they are the examples of the bot's
  help text, the first with \<open>Vazhno!\<close> added), the parts expected of them, and a clock
  value: midnight of 2025-01-01, day 739251 after 0001-01-01.
\<close>

definition example_report_title :: ustr where
  "example_report_title =
     [1057, 1086, 1079, 1076, 1072, 1090, 1100, 32, 1079, 1072, 1076, 1072, 1095, 1091,
      58, 32, 1055, 1086, 1076, 1075, 1086, 1090, 1086, 1074, 1080, 1090, 1100, 32, 1086,
      1090, 1095, 1077, 1090, 32, 1082, 32, 1079, 1072, 1074, 1090, 1088, 1072, 1096,
      1085, 1077, 1084, 1091, 32, 1076, 1085, 1102]"

definition vazhno_excl :: ustr where
  "vazhno_excl = [1042, 1072, 1078, 1085, 1086, 33]"

definition example_report :: ustr where
  "example_report = example_report_title @ [46, 32] @ vazhno_excl"

definition example_client :: ustr where
  "example_client =
     [1053, 1086, 1074, 1072, 1103, 32, 1079, 1072, 1076, 1072, 1095, 1072, 58, 32, 1057,
      1074, 1103, 1079, 1072, 1090, 1100, 1089, 1103, 32, 1089, 32, 1082, 1083, 1080,
      1077, 1085, 1090, 1086, 1084, 32, 64, 105, 118, 97, 110, 32, 1076, 1086, 32, 1087,
      1103, 1090, 1085, 1080, 1094, 1099]"

definition ivan :: ustr where
  "ivan = [105, 118, 97, 110]"

definition new_year_2025 :: datetime where
  "new_year_2025 = 739251 * day"

definition important_when_time :: ustr where
  "important_when_time = [1074, 1072, 1078, 1085, 1086, 32] @ kogda_budet_vremya"

text \<open>
  The exceptions the collaborators raise in a world, and three worlds: one in which
  every collaborator succeeds and the recogniser returns a text, one in which
  \<open>ffmpeg\<close> does not finish within the timeout, and one in which the download fails.
\<close>

definition exception_of :: "error + 'a \<Rightarrow> error option" where
  "exception_of r = (case r of Inl e \<Rightarrow> Some e | Inr _ \<Rightarrow> None)"

definition raised :: "world \<Rightarrow> error list" where
  "raised w =
     List.map_filter id
       [exception_of (make_ogg w), exception_of (make_wav w), exception_of (download w),
        exception_of (spawn w), exception_of (wait w), exception_of (kill w),
        exception_of (read_audio w), exception_of (recognize w),
        exception_of (unlink_ogg w), exception_of (unlink_wav w)]"

definition world_ok :: world where
  "world_ok = \<lparr>
     make_ogg = Inr (), make_wav = Inr (), download = Inr (), spawn = Inr (),
     wait = Inr 0, kill = Inr (), read_audio = Inr (), recognize = Inr example_report,
     unlink_ogg = Inr (), unlink_wav = Inr () \<rparr>"

definition world_timeout :: world where
  "world_timeout = world_ok\<lparr>wait := Inl TimeoutError\<rparr>"

definition world_download_fails :: world where
  "world_download_fails = world_ok\<lparr>download := Inl OSError\<rparr>"

text \<open>The replies of \<open>delete_task\<close> other than the confirmation are error replies.\<close>

definition is_error_reply :: "reply \<Rightarrow> bool" where
  "is_error_reply r = (case r of Deleted _ \<Rightarrow> False | _ \<Rightarrow> True)"

text \<open>
  The requester is the creator of a task: the first user row with the sender's Telegram
  id exists and its primary key is the task's \<open>creator_id\<close>.
\<close>

definition requester_is_creator :: "store \<Rightarrow> message \<Rightarrow> task \<Rightarrow> bool" where
  "requester_is_creator st msg t =
     (case from_user msg of
        None \<Rightarrow> False
      | Some sender \<Rightarrow>
          (case find (\<lambda>u. telegram_id u = Some sender) (users st) of
             None \<Rightarrow> False
           | Some u \<Rightarrow> creator_id t = Some (user_id u)))"

text \<open>
  A store with two users and one task, created by the first user, and the request
  \<open>/delete 1\<close> from either of them; the key of a task is read from one decimal digit.
\<close>

definition example_store :: store where
  "example_store = \<lparr>
     users = [\<lparr>user_id = 1, telegram_id = Some 501\<rparr>, \<lparr>user_id = 2, telegram_id = Some 502\<rparr>],
     tasks = [1 \<mapsto> \<lparr>title = ivan, creator_id = Some 1, assignee_id = None\<rparr>] \<rparr>"

definition delete_1 :: ustr where
  "delete_1 = [47, 100, 101, 108, 101, 116, 101, 32, 49]"

definition digit_key :: "ustr \<Rightarrow> int option" where
  "digit_key s = (case s of [c] \<Rightarrow> (if 48 \<le> c \<and> c \<le> 57 then Some (int c - 48) else None)
                  | _ \<Rightarrow> None)"

text \<open>
  Further texts: \<open>cherez 3 dnya\<close> (in 3 days), \<open>cherez 1000000000 dnya\<close>, and
  \<open>zavtra k 5 maya\<close> (tomorrow by 5 May).
\<close>

definition dnya :: ustr where
  "dnya = [32, 1076, 1085, 1103]"

definition in_3_days :: ustr where
  "in_3_days = cherez @ [51] @ dnya"

definition in_1000000000_days :: ustr where
  "in_1000000000_days = cherez @ [49, 48, 48, 48, 48, 48, 48, 48, 48, 48] @ dnya"

definition tomorrow_by_5_may :: ustr where
  "tomorrow_by_5_may = zavtra @ [32, 1082, 32, 53, 32, 1084, 1072, 1103]"

text \<open>A text with three at-signs: \<open>@ @ivan @bob\<close>.\<close>

definition two_mentions :: ustr where
  "two_mentions = [64, 32] @ 64 # ivan @ [32, 64, 98, 111, 98]"

section \<open>Evaluation on concrete inputs\<close>

lemmas pattern_defs =
  date_patterns_def pat_k_date_def pat_do_date_def pat_zavtra_def pat_next_week_def
  pat_cherez_days_def pat_cherez_weeks_def omu_def ogo_def cherez_def zavtra_def
  cyr_letters_def

lemmas indicator_defs =
  priority_indicators_def high_indicators_def low_indicators_def srochno_def
  prioritetnaya_def nizkiy_prioritet_def ne_srochno_def kogda_budet_vremya_def
  ne_prioritetnaya_def

lemmas date_defs =
  due_date_of_match_def int_group1_def py_int_def decimal_def int_max_str_digits_def
  timedelta_days_def timedelta_weeks_def now_plus_def datetime_add_def

lemmas example_defs =
  example_report_def example_report_title_def vazhno_excl_def example_client_def ivan_def
  important_when_time_def dnya_def in_3_days_def in_1000000000_days_def
  tomorrow_by_5_may_def two_mentions_def

lemmas eval_defs =
  extract_task_info_def Let_def pattern_defs indicator_defs date_defs lower_def strip_def
  ucd_basic_def sublist_Cons_right

lemma new_year_2025_range: "0 \<le> new_year_2025 \<and> new_year_2025 + day \<le> datetime_max"
  by (simp add: new_year_2025_def day_def datetime_max_def)

section \<open>Title and description\<close>

lemma split_not_Nil: "split c s \<noteq> []"
  by (induction s) (auto split: list.splits)

lemma split_first: "split c s ! 0 = takeWhile (\<lambda>x. x \<noteq> c) s"
proof (induction s)
  case Nil
  show ?case by simp
next
  case (Cons x xs)
  then show ?case using split_not_Nil [of c xs]
    by (cases "split c xs") auto
qed

lemma all_dropWhile_iff:
  "(\<forall>c \<in> set (dropWhile P s). P c) \<longleftrightarrow> (\<forall>c \<in> set s. P c)"
proof
  assume h: "\<forall>c \<in> set (dropWhile P s). P c"
  have "set s = set (takeWhile P s) \<union> set (dropWhile P s)"
    by (metis set_append takeWhile_dropWhile_id)
  with h show "\<forall>c \<in> set s. P c"
    by (auto dest: set_takeWhileD)
next
  assume "\<forall>c \<in> set s. P c"
  then show "\<forall>c \<in> set (dropWhile P s). P c"
    by (auto dest: set_dropWhileD)
qed

lemma strip_Nil_iff: "strip db s = [] \<longleftrightarrow> (\<forall>c \<in> set s. is_space db c)"
  by (simp add: strip_def all_dropWhile_iff)

lemma title_of_result:
  "extract_task_info db now text = Inr (t, d, due, p) \<Longrightarrow>
   t = strip db (takeWhile (\<lambda>c. c \<noteq> 46) text)"
  by (auto simp: extract_task_info_def Let_def split_first split: sum.splits)

lemma dots_eval:
  "extract_task_info ucd_basic new_year_2025 [46, 46, 46] = Inr ([], [46, 46], None, ''medium'')"
proof -
  have due: "due_date_loop ucd_basic new_year_2025 [46, 46, 46] date_patterns = Inr None"
    by (simp add: pattern_defs lower_def ucd_basic_def)
  have pr: "priority_loop (lower ucd_basic [46, 46, 46]) priority_indicators = ''medium''"
    by (simp add: indicator_defs lower_def ucd_basic_def sublist_Cons_right)
  show ?thesis
    unfolding extract_task_info_def Let_def due pr by (simp add: strip_def ucd_basic_def)
qed

text \<open>
  Claim C2, as stated, fails: the input \<open>...\<close> is not empty and consists of
  punctuation only, yet its title is empty, not the trimmed input, and a description
  \<open>..\<close> is produced.
\<close>

theorem title_empty_counterexample:
  "[46, 46, 46] \<noteq> [] \<and>
   extract_task_info ucd_basic new_year_2025 [46, 46, 46] = Inr ([], [46, 46], None, ''medium'') \<and>
   strip ucd_basic [46, 46, 46] = [46, 46, 46]"
  using dots_eval by (simp add: strip_def ucd_basic_def)

text \<open>
  Claim C2, amended: the title is always the trimmed text before the first period and
  there is no fallback. It is non-empty exactly when a character that is not white space
  stands before the first period; for an input without a period it is the trimmed input.
\<close>

theorem title_is_first_segment:
  "extract_task_info db now text = Inr (t, d, due, p) \<Longrightarrow>
     t = strip db (takeWhile (\<lambda>c. c \<noteq> 46) text) \<and>
     (t \<noteq> [] \<longleftrightarrow> (\<exists>c \<in> set (takeWhile (\<lambda>c. c \<noteq> 46) text). \<not> is_space db c)) \<and>
     (46 \<notin> set text \<longrightarrow> t = strip db text)"
proof -
  assume r: "extract_task_info db now text = Inr (t, d, due, p)"
  have t: "t = strip db (takeWhile (\<lambda>c. c \<noteq> 46) text)"
    using r by (rule title_of_result)
  have ne: "t \<noteq> [] \<longleftrightarrow> (\<exists>c \<in> set (takeWhile (\<lambda>c. c \<noteq> 46) text). \<not> is_space db c)"
    unfolding t by (simp add: strip_Nil_iff)
  have nodot: "46 \<notin> set text \<longrightarrow> t = strip db text"
  proof
    assume "46 \<notin> set text"
    then have "\<forall>x \<in> set text. x \<noteq> 46" by auto
    then have tw: "takeWhile (\<lambda>c. c \<noteq> 46) text = text" by simp
    show "t = strip db text" unfolding t tw ..
  qed
  from t ne nodot show ?thesis by blast
qed

theorem title_is_first_segment_witness:
  "extract_task_info ucd_basic new_year_2025 [33, 63] = Inr ([33, 63], [], None, ''medium'') \<and>
   [33, 63] = strip ucd_basic (takeWhile (\<lambda>c. c \<noteq> 46) [33, 63]) \<and>
   strip ucd_basic [33, 63] = [33, 63]"
proof -
  have h: "extract_task_info ucd_basic new_year_2025 [33, 63] = Inr ([33, 63], [], None, ''medium'')"
    by (simp add: eval_defs)
  show ?thesis
    using title_is_first_segment [OF h] h by (simp add: strip_def ucd_basic_def)
qed

section \<open>The example sentence of the help text\<close>

lemma example_report_eval:
  assumes "0 \<le> now" and "now + day \<le> datetime_max"
  shows "extract_task_info ucd_basic now example_report =
           Inr (example_report_title, vazhno_excl, Some (now + day), ''high'')"
proof -
  have due: "due_date_loop ucd_basic now example_report date_patterns = Inr (Some (now + day))"
    using assms
    by (simp add: example_defs pattern_defs date_defs lower_def ucd_basic_def day_def)
  have pr: "priority_loop (lower ucd_basic example_report) priority_indicators = ''high''"
    by (simp add: example_defs indicator_defs lower_def ucd_basic_def sublist_Cons_right)
  have ti: "strip ucd_basic (split 46 example_report ! 0) = example_report_title"
    by (simp add: example_defs strip_def ucd_basic_def)
  have de: "strip ucd_basic (join [46] (drop 1 (split 46 example_report))) = vazhno_excl"
    by (simp add: example_defs strip_def ucd_basic_def)
  have le: "length (split 46 example_report) > 1"
    by (simp add: example_defs)
  show ?thesis
    unfolding extract_task_info_def Let_def due pr ti de using le by simp
qed

text \<open>
  Claim C1, as stated, fails in its last part: for the example sentence the result is
  not the one with an absent due date. The word \<open>zavtrashnemu\<close> begins with
  \<open>zavtra\<close>, and \<open>re.search\<close> finds the keyword inside it.
\<close>

theorem example_report_due_date_counterexample:
  "extract_task_info ucd_basic new_year_2025 example_report \<noteq>
     Inr (example_report_title, vazhno_excl, None, ''high'')"
  using example_report_eval [of new_year_2025] new_year_2025_range by simp

text \<open>
  Claim C1, amended: for the example sentence the title is the text before the period,
  the description is \<open>Vazhno!\<close>, the priority is high, and the due date is one day
  after the clock value (which is representable for every clock value up to one day
  before \<open>datetime.max\<close>).
\<close>

theorem example_report_extracted:
  "0 \<le> now \<Longrightarrow> now + day \<le> datetime_max \<Longrightarrow>
   extract_task_info ucd_basic now example_report =
     Inr (example_report_title, vazhno_excl, Some (now + day), ''high'')"
  by (rule example_report_eval)

theorem example_report_extracted_witness:
  "0 \<le> new_year_2025 \<and> new_year_2025 + day \<le> datetime_max \<and>
   extract_task_info ucd_basic new_year_2025 example_report =
     Inr (example_report_title, vazhno_excl, Some (new_year_2025 + day), ''high'')"
  using example_report_extracted [of new_year_2025] new_year_2025_range by simp

section \<open>Priority\<close>

lemma priority_of_result:
  "extract_task_info db now text = Inr (t, d, due, p) \<Longrightarrow>
   p = priority_loop (lower db text) priority_indicators"
  by (auto simp: extract_task_info_def Let_def split: sum.splits)

lemma priority_loop_indicators:
  "priority_loop s priority_indicators =
     (if \<exists>i \<in> set high_indicators. sublist i s then ''high''
      else if \<exists>i \<in> set low_indicators. sublist i s then ''low''
      else ''medium'')"
  by (simp add: priority_indicators_def list_ex_iff)

lemma sublist_lower:
  assumes "sublist p s" and "\<forall>c \<in> set p. to_lower db c = [c]"
  shows "sublist p (lower db s)"
proof -
  from assms(1) obtain a b where s: "s = a @ p @ b"
    by (auto simp: sublist_def)
  have "lower db p = p"
    using assms(2) unfolding lower_def by (induction p) auto
  then have "lower db s = lower db a @ p @ lower db b"
    by (simp add: s lower_def)
  then show ?thesis by simp
qed

lemma sublist_srochno: "sublist srochno ne_srochno"
  unfolding ne_srochno_def by (rule sublist_append_leftI)

lemma sublist_prioritetnaya: "sublist prioritetnaya ne_prioritetnaya"
  unfolding ne_prioritetnaya_def by (rule sublist_append_leftI)

lemma high_members: "srochno \<in> set high_indicators" "prioritetnaya \<in> set high_indicators"
  by (simp_all add: high_indicators_def)

lemma negated_is_high:
  assumes "sublist ne_srochno s \<or> sublist ne_prioritetnaya s"
  shows "\<exists>i \<in> set high_indicators. sublist i s"
proof -
  have "sublist srochno s \<or> sublist prioritetnaya s"
    using assms sublist_srochno sublist_prioritetnaya
    by (auto simp: sublist_def) (metis append.assoc)+
  then show ?thesis
    using high_members by blast
qed

text \<open>
  Claim C4: the high-priority table is checked before the low-priority one, on the
  lower-cased text. A text with a high-priority phrase has priority high, whether or
  not a low-priority phrase occurs too; with no high-priority phrase but a low-priority
  one it is low; with no phrase of either table it is medium.
\<close>

theorem priority_high_before_low:
  "extract_task_info db now text = Inr (t, d, due, p) \<Longrightarrow>
     ((\<exists>i \<in> set high_indicators. sublist i (lower db text)) \<longrightarrow> p = ''high'') \<and>
     ((\<forall>i \<in> set high_indicators. \<not> sublist i (lower db text)) \<and>
      (\<exists>i \<in> set low_indicators. sublist i (lower db text)) \<longrightarrow> p = ''low'') \<and>
     ((\<forall>i \<in> set high_indicators \<union> set low_indicators. \<not> sublist i (lower db text))
        \<longrightarrow> p = ''medium'')"
proof -
  assume "extract_task_info db now text = Inr (t, d, due, p)"
  then have "p = priority_loop (lower db text) priority_indicators"
    by (rule priority_of_result)
  then show ?thesis
    unfolding priority_loop_indicators by auto
qed

theorem priority_high_before_low_witness:
  "extract_task_info ucd_basic new_year_2025 important_when_time
     = Inr (important_when_time, [], None, ''high'') \<and>
   (\<exists>i \<in> set high_indicators. sublist i (lower ucd_basic important_when_time)) \<and>
   (\<exists>i \<in> set low_indicators. sublist i (lower ucd_basic important_when_time))"
proof -
  have h: "extract_task_info ucd_basic new_year_2025 important_when_time
           = Inr (important_when_time, [], None, ''high'')"
    by (simp add: eval_defs example_defs)
  have hi: "\<exists>i \<in> set high_indicators. sublist i (lower ucd_basic important_when_time)"
    by (simp add: eval_defs example_defs)
  have lo: "\<exists>i \<in> set low_indicators. sublist i (lower ucd_basic important_when_time)"
    by (simp add: eval_defs example_defs)
  from priority_high_before_low [OF h] h hi lo show ?thesis by blast
qed

text \<open>
  Claim C5: the low-priority phrases \<open>ne srochno\<close> and \<open>ne prioritetnaya\<close> contain
  the high-priority phrases \<open>srochno\<close> and \<open>prioritetnaya\<close>. So a text whose
  lower-cased form contains one of the two has priority high (and so has a text that
  contains one of them as written, the tables leaving lower-case letters and the blank
  as they are); priority low is reached only through \<open>nizkiy prioritet\<close> or
  \<open>kogda budet vremya\<close>.
\<close>

theorem negated_phrases_are_high:
  "extract_task_info db now text = Inr (t, d, due, p) \<Longrightarrow>
     ((sublist ne_srochno (lower db text) \<or> sublist ne_prioritetnaya (lower db text))
        \<longrightarrow> p = ''high'') \<and>
     ((\<forall>c \<in> set ne_srochno \<union> set ne_prioritetnaya. to_lower db c = [c]) \<and>
      (sublist ne_srochno text \<or> sublist ne_prioritetnaya text) \<longrightarrow> p = ''high'') \<and>
     (p = ''low'' \<longrightarrow>
        sublist nizkiy_prioritet (lower db text) \<or> sublist kogda_budet_vremya (lower db text))"
proof -
  assume "extract_task_info db now text = Inr (t, d, due, p)"
  then have p: "p = priority_loop (lower db text) priority_indicators"
    by (rule priority_of_result)
  have a: "p = ''high''"
    if "sublist ne_srochno (lower db text) \<or> sublist ne_prioritetnaya (lower db text)"
    using negated_is_high [OF that] unfolding p priority_loop_indicators by simp
  have b: "p = ''high''"
    if "\<forall>c \<in> set ne_srochno \<union> set ne_prioritetnaya. to_lower db c = [c]"
      and "sublist ne_srochno text \<or> sublist ne_prioritetnaya text"
    using that by (auto intro!: a sublist_lower)
  have c: "sublist nizkiy_prioritet (lower db text) \<or> sublist kogda_budet_vremya (lower db text)"
    if "p = ''low''"
  proof -
    from that have no_high: "\<not> (\<exists>i \<in> set high_indicators. sublist i (lower db text))"
      and low: "\<exists>i \<in> set low_indicators. sublist i (lower db text)"
      unfolding p priority_loop_indicators by (auto split: if_splits)
    from no_high negated_is_high
    have "\<not> sublist ne_srochno (lower db text)" "\<not> sublist ne_prioritetnaya (lower db text)"
      by blast+
    with low show ?thesis
      by (auto simp: low_indicators_def)
  qed
  from a b c show ?thesis by blast
qed

theorem negated_phrases_are_high_witness:
  "extract_task_info ucd_basic new_year_2025 ne_srochno = Inr (ne_srochno, [], None, ''high'') \<and>
   sublist ne_srochno (lower ucd_basic ne_srochno) \<and>
   list_all (\<lambda>c. to_lower ucd_basic c = [c]) (ne_srochno @ ne_prioritetnaya) \<and>
   sublist ne_srochno ne_srochno"
proof -
  have h: "extract_task_info ucd_basic new_year_2025 ne_srochno = Inr (ne_srochno, [], None, ''high'')"
    by (simp add: eval_defs)
  have s: "sublist ne_srochno (lower ucd_basic ne_srochno)"
    by (simp add: eval_defs)
  have l: "\<forall>c \<in> set ne_srochno \<union> set ne_prioritetnaya. to_lower ucd_basic c = [c]"
    by (simp add: eval_defs)
  from l have "list_all (\<lambda>c. to_lower ucd_basic c = [c]) (ne_srochno @ ne_prioritetnaya)"
    by (simp add: list_all_iff)
  with negated_phrases_are_high [OF h] h s l show ?thesis by blast
qed

section \<open>The clock\<close>

lemma now_plus_shift:
  "now_plus n1 delta = Inr a \<Longrightarrow> now_plus n2 delta = Inr b \<Longrightarrow>
   \<exists>x y. a = Some x \<and> b = Some y \<and> x - n1 = y - n2"
  by (auto simp: now_plus_def datetime_add_def split: sum.splits if_splits)

lemma due_date_of_match_shift:
  "due_date_of_match db n1 r m = Inr a \<Longrightarrow> due_date_of_match db n2 r m = Inr b \<Longrightarrow>
   (a = None \<and> b = None) \<or> (\<exists>x y. a = Some x \<and> b = Some y \<and> x - n1 = y - n2)"
  unfolding due_date_of_match_def
  by (auto split: if_splits sum.splits dest: now_plus_shift)

lemma due_date_loop_shift:
  "due_date_loop db n1 text ps = Inr a \<Longrightarrow> due_date_loop db n2 text ps = Inr b \<Longrightarrow>
   (a = None \<and> b = None) \<or> (\<exists>x y. a = Some x \<and> b = Some y \<and> x - n1 = y - n2)"
proof (induction ps)
  case Nil
  then show ?case by simp
next
  case (Cons r ps)
  show ?case
  proof (cases "search db r (lower db text)")
    case None
    with Cons show ?thesis by simp
  next
    case (Some m)
    with Cons.prems have "due_date_of_match db n1 r m = Inr a"
      and "due_date_of_match db n2 r m = Inr b"
      by simp_all
    then show ?thesis
      by (rule due_date_of_match_shift)
  qed
qed

text \<open>
  Claim C7: the extractor is a function of the text and the clock value alone, and the
  clock value enters the due date only. Two calls on the same text that return, at two
  clock values, agree on title, description and priority; either both have no due date
  or both have one, at the same distance from their clock values; at equal clock values
  the due dates are equal too. \<open>extract_user_mention\<close> does not read the clock at all.
\<close>

theorem clock_only_in_due_date:
  "extract_task_info db now1 text = Inr (t1, d1, due1, p1) \<Longrightarrow>
   extract_task_info db now2 text = Inr (t2, d2, due2, p2) \<Longrightarrow>
     t1 = t2 \<and> d1 = d2 \<and> p1 = p2 \<and>
     ((due1 = None \<and> due2 = None) \<or>
      (\<exists>x y. due1 = Some x \<and> due2 = Some y \<and> x - now1 = y - now2)) \<and>
     (now1 = now2 \<longrightarrow> due1 = due2)"
proof -
  assume r1: "extract_task_info db now1 text = Inr (t1, d1, due1, p1)"
    and r2: "extract_task_info db now2 text = Inr (t2, d2, due2, p2)"
  from r1 have l1: "due_date_loop db now1 text date_patterns = Inr due1"
    by (auto simp: extract_task_info_def Let_def split: sum.splits)
  from r2 have l2: "due_date_loop db now2 text date_patterns = Inr due2"
    by (auto simp: extract_task_info_def Let_def split: sum.splits)
  from r1 r2 have same: "t1 = t2 \<and> d1 = d2 \<and> p1 = p2"
    by (auto simp: extract_task_info_def Let_def split: sum.splits)
  from due_date_loop_shift [OF l1 l2] same l1 l2 show ?thesis by auto
qed

theorem clock_only_in_due_date_witness:
  "extract_task_info ucd_basic new_year_2025 example_report =
     Inr (example_report_title, vazhno_excl, Some (new_year_2025 + day), ''high'') \<and>
   extract_task_info ucd_basic (new_year_2025 + day) example_report =
     Inr (example_report_title, vazhno_excl, Some (new_year_2025 + day + day), ''high'') \<and>
   (new_year_2025 + day) - new_year_2025 = (new_year_2025 + day + day) - (new_year_2025 + day)"
proof -
  have h1: "extract_task_info ucd_basic new_year_2025 example_report =
     Inr (example_report_title, vazhno_excl, Some (new_year_2025 + day), ''high'')"
    by (rule example_report_eval) (simp_all add: new_year_2025_def day_def datetime_max_def)
  have h2: "extract_task_info ucd_basic (new_year_2025 + day) example_report =
     Inr (example_report_title, vazhno_excl, Some (new_year_2025 + day + day), ''high'')"
    by (rule example_report_eval) (simp_all add: new_year_2025_def day_def datetime_max_def)
  show ?thesis
    using clock_only_in_due_date [OF h1 h2] h1 h2 by simp
qed

section \<open>Voice messages\<close>

lemmas world_defs =
  convert_voice_to_text_def with_tmpfiles_def cleanup_def recognize_wav_def
  convert_ogg_to_wav_def except_Exception_def

lemma raised_members:
  assumes "list_all is_Exception (raised w)"
  shows "make_ogg w = Inl e \<Longrightarrow> is_Exception e"
    and "make_wav w = Inl e \<Longrightarrow> is_Exception e"
    and "download w = Inl e \<Longrightarrow> is_Exception e"
    and "spawn w = Inl e \<Longrightarrow> is_Exception e"
    and "wait w = Inl e \<Longrightarrow> is_Exception e"
    and "kill w = Inl e \<Longrightarrow> is_Exception e"
    and "read_audio w = Inl e \<Longrightarrow> is_Exception e"
    and "recognize w = Inl e \<Longrightarrow> is_Exception e"
    and "unlink_ogg w = Inl e \<Longrightarrow> is_Exception e"
    and "unlink_wav w = Inl e \<Longrightarrow> is_Exception e"
  using assms
  by (auto simp: raised_def exception_of_def split: sum.splits)

lemma convert_ogg_to_wav_soft:
  assumes "list_all is_Exception (raised w)"
  shows "\<exists>b. convert_ogg_to_wav w = Inr b"
  using raised_members(4,5,6) [OF assms]
  by (auto simp: convert_ogg_to_wav_def except_Exception_def split: sum.splits)

lemma convert_ogg_to_wav_True:
  "convert_ogg_to_wav w = Inr True \<Longrightarrow> wait w = Inr 0"
  by (auto simp: convert_ogg_to_wav_def except_Exception_def split: sum.splits if_splits)

lemma cleanup_soft:
  assumes "list_all is_Exception (raised w)"
  shows "fst (cleanup w files) = None"
  using raised_members(9,10) [OF assms]
  by (auto simp: cleanup_def split: sum.splits)

lemma recognize_wav_cases:
  assumes "list_all is_Exception (raised w)"
  shows "recognize_wav w = Inr None \<or> (\<exists>e. recognize_wav w = Inl e \<and> is_Exception e)
         \<or> (\<exists>t. recognize_wav w = Inr (Some t) \<and> wait w = Inr 0 \<and> recognize w = Inr t)"
proof -
  obtain b where b: "convert_ogg_to_wav w = Inr b"
    using convert_ogg_to_wav_soft [OF assms] by blast
  show ?thesis
  proof (cases b)
    case False
    with b show ?thesis by (simp add: recognize_wav_def)
  next
    case True
    with b have "wait w = Inr 0" by (simp add: convert_ogg_to_wav_True)
    with b True raised_members(7,8) [OF assms] show ?thesis
      by (auto simp: recognize_wav_def split: sum.splits)
  qed
qed

lemma voice_text_cases:
  assumes "list_all is_Exception (raised w)"
  shows "fst (convert_voice_to_text w) = Inr None
         \<or> (\<exists>t. fst (convert_voice_to_text w) = Inr (Some t) \<and> wait w = Inr 0 \<and> recognize w = Inr t)"
  using recognize_wav_cases [OF assms] cleanup_soft [OF assms, of "{Ogg, Wav}"]
    raised_members(1,2,3) [OF assms]
  by (auto simp: convert_voice_to_text_def with_tmpfiles_def except_Exception_def Let_def
      split: sum.splits prod.splits)

text \<open>
  Claim C8: \<open>convert_voice_to_text\<close> fails soft. Whatever the collaborators do, as
  long as what they raise derives from \<open>Exception\<close>, no exception escapes; and when
  the conversion times out or exits with a non-zero code, or the recogniser raises
  (\<open>UnknownValueError\<close>, \<open>RequestError\<close> or any other error), the result is \<open>None\<close>.
\<close>

theorem voice_fails_soft:
  "list_all is_Exception (raised w) \<Longrightarrow>
     (\<exists>r. fst (convert_voice_to_text w) = Inr r) \<and>
     ((wait w = Inl TimeoutError \<or> (\<exists>rc. wait w = Inr rc \<and> rc \<noteq> 0) \<or> (\<exists>e. recognize w = Inl e))
        \<longrightarrow> fst (convert_voice_to_text w) = Inr None)"
  using voice_text_cases [of w] by auto

theorem voice_fails_soft_witness:
  "list_all is_Exception (raised world_timeout) \<and> wait world_timeout = Inl TimeoutError \<and>
   fst (convert_voice_to_text world_timeout) = Inr None"
proof -
  have h: "list_all is_Exception (raised world_timeout)"
    by (simp add: raised_def exception_of_def world_timeout_def
        world_ok_def is_Exception_def)
  have t: "wait world_timeout = Inl TimeoutError"
    by (simp add: world_timeout_def)
  from voice_fails_soft [OF h] t show ?thesis using h by blast
qed

text \<open>
  Claim C9 does not hold of the code: the download runs before the \<open>try\<close> whose
  \<open>finally\<close> block removes the files. When the download raises, the function returns
  \<open>None\<close> and both temporary files stay on disk.
\<close>

theorem download_failure_leaves_files:
  "convert_voice_to_text world_download_fails = (Inr None, {Ogg, Wav})"
  by (simp add: world_defs world_download_fails_def world_ok_def is_Exception_def)

text \<open>
  Once the download has succeeded, every path runs the \<open>finally\<close> block, and the
  files are gone if the two \<open>os.unlink\<close> succeed.
\<close>

lemma files_removed_after_download:
  assumes "make_ogg w = Inr ()" "make_wav w = Inr ()" "download w = Inr ()"
    and "unlink_ogg w = Inr ()" "unlink_wav w = Inr ()"
  shows "snd (convert_voice_to_text w) = {}"
  using assms
  by (auto simp: convert_voice_to_text_def with_tmpfiles_def cleanup_def Let_def split: prod.splits)

section \<open>Deleting a task\<close>

lemma delete_task_named:
  assumes "split_maxsplit1 db (message_text msg) = [cmd, arg]"
    and "key_of arg = Some k" and "tasks st k = Some t"
  shows "delete_task db key_of st msg =
           (if requester_is_creator st msg t
            then (st\<lparr>tasks := (tasks st)(k := None)\<rparr>, Deleted k)
            else (st, case from_user msg of
                        None \<Rightarrow> Failed
                      | Some sender \<Rightarrow>
                          (case find (\<lambda>u. telegram_id u = Some sender) (users st) of
                             None \<Rightarrow> User_not_found | Some u \<Rightarrow> Not_creator)))"
  using assms
  by (auto simp: delete_task_def requester_is_creator_def Let_def split: option.splits)

lemma delete_task_other:
  assumes "\<not> (\<exists>cmd arg k t. split_maxsplit1 db (message_text msg) = [cmd, arg] \<and>
              key_of arg = Some k \<and> tasks st k = Some t)"
  shows "\<exists>e. delete_task db key_of st msg = (st, e) \<and> is_error_reply e"
proof (cases "length (split_maxsplit1 db (message_text msg)) = 2")
  case False
  then show ?thesis
    by (simp add: delete_task_def is_error_reply_def)
next
  case True
  then obtain cmd arg where a: "split_maxsplit1 db (message_text msg) = [cmd, arg]"
    by (auto simp: length_Suc_conv numeral_2_eq_2)
  with assms have n: "key_of arg = None \<or> (\<exists>k. key_of arg = Some k \<and> tasks st k = None)"
    by (cases "key_of arg") auto
  show ?thesis
  proof (cases "from_user msg")
    case None
    with a show ?thesis
      by (simp add: delete_task_def is_error_reply_def)
  next
    case (Some sender)
    show ?thesis
    proof (cases "find (\<lambda>u. telegram_id u = Some sender) (users st)")
      case None
      with a Some show ?thesis
        by (simp add: delete_task_def is_error_reply_def)
    next
      case u: (Some u)
      from n show ?thesis
      proof
        assume "key_of arg = None"
        with a Some u show ?thesis
          by (simp add: delete_task_def is_error_reply_def)
      next
        assume "\<exists>k. key_of arg = Some k \<and> tasks st k = None"
        then obtain k where "key_of arg = Some k" "tasks st k = None"
          by blast
        with a Some u show ?thesis
          by (simp add: delete_task_def is_error_reply_def)
      qed
    qed
  qed
qed

lemma delete_task_named_error:
  assumes "split_maxsplit1 db (message_text msg) = [cmd, arg]"
    and "key_of arg = Some k" and "tasks st k = Some t"
    and "\<not> requester_is_creator st msg t"
  shows "\<exists>e. delete_task db key_of st msg = (st, e) \<and> is_error_reply e"
  unfolding delete_task_named [where key_of = key_of and st = st, OF assms(1,2,3)]
  using assms(4) by (simp add: is_error_reply_def split: option.splits)

lemma delete_task_named_creator:
  assumes "split_maxsplit1 db (message_text msg) = [cmd, arg]"
    and "key_of arg = Some k" and "tasks st k = Some t"
    and "requester_is_creator st msg t"
  shows "delete_task db key_of st msg = (st\<lparr>tasks := (tasks st)(k := None)\<rparr>, Deleted k)"
  unfolding delete_task_named [where key_of = key_of and st = st, OF assms(1,2,3)]
  using assms(4) by simp

lemma delete_task_error_unchanged:
  assumes "delete_task db key_of st msg = (st', r)" and "is_error_reply r"
  shows "st' = st"
proof (cases "\<exists>cmd arg k t. split_maxsplit1 db (message_text msg) = [cmd, arg] \<and>
              key_of arg = Some k \<and> tasks st k = Some t")
  case False
  from delete_task_other [OF False] assms(1) show ?thesis by auto
next
  case True
  then obtain cmd arg k t where n: "split_maxsplit1 db (message_text msg) = [cmd, arg]"
    "key_of arg = Some k" "tasks st k = Some t"
    by blast
  show ?thesis
  proof (cases "requester_is_creator st msg t")
    case True
    from delete_task_named_creator [where key_of = key_of, OF n True] assms show ?thesis
      by (simp add: is_error_reply_def)
  next
    case False
    from delete_task_named_error [where key_of = key_of, OF n False] assms(1) show ?thesis by auto
  qed
qed

lemma delete_task_Deleted:
  assumes "delete_task db key_of st msg = (st', Deleted k)"
  shows "\<exists>cmd arg t. split_maxsplit1 db (message_text msg) = [cmd, arg] \<and> key_of arg = Some k \<and>
     tasks st k = Some t \<and> requester_is_creator st msg t"
proof (cases "\<exists>cmd arg k t. split_maxsplit1 db (message_text msg) = [cmd, arg] \<and>
              key_of arg = Some k \<and> tasks st k = Some t")
  case False
  from delete_task_other [OF False] assms show ?thesis
    by (auto simp: is_error_reply_def)
next
  case True
  then obtain cmd arg k' t where n: "split_maxsplit1 db (message_text msg) = [cmd, arg]"
    "key_of arg = Some k'" "tasks st k' = Some t"
    by blast
  show ?thesis
  proof (cases "requester_is_creator st msg t")
    case True
    from delete_task_named_creator [where key_of = key_of, OF n True] assms have "k' = k" by simp
    with n True show ?thesis by blast
  next
    case False
    from delete_task_named_error [where key_of = key_of, OF n False] assms show ?thesis
      by (auto simp: is_error_reply_def)
  qed
qed

text \<open>
  Claim C10: deletion is scoped to the creator. For a request that names an existing
  task, the task is removed exactly when the requester is its creator, and then nothing
  else changes and the deletion is confirmed; when the requester is not the creator the
  store is unchanged and the reply is an error. In general an error reply leaves the
  store unchanged, and a deletion is confirmed only for an existing task named by the
  request and created by the requester.
\<close>

theorem delete_scoped_to_creator:
  "delete_task db key_of st msg = (st', r) \<Longrightarrow>
     (\<forall>cmd arg k t. split_maxsplit1 db (message_text msg) = [cmd, arg] \<and> key_of arg = Some k \<and>
        tasks st k = Some t \<longrightarrow>
          (tasks st' k = None \<longleftrightarrow> requester_is_creator st msg t) \<and>
          (requester_is_creator st msg t \<longrightarrow>
             st' = st\<lparr>tasks := (tasks st)(k := None)\<rparr> \<and> r = Deleted k) \<and>
          (\<not> requester_is_creator st msg t \<longrightarrow> st' = st \<and> is_error_reply r)) \<and>
     (is_error_reply r \<longrightarrow> st' = st) \<and>
     (\<forall>k. r = Deleted k \<longrightarrow>
        (\<exists>cmd arg t. split_maxsplit1 db (message_text msg) = [cmd, arg] \<and> key_of arg = Some k \<and>
           tasks st k = Some t \<and> requester_is_creator st msg t))"
proof -
  assume d: "delete_task db key_of st msg = (st', r)"
  have a: "(tasks st' k = None \<longleftrightarrow> requester_is_creator st msg t) \<and>
          (requester_is_creator st msg t \<longrightarrow>
             st' = st\<lparr>tasks := (tasks st)(k := None)\<rparr> \<and> r = Deleted k) \<and>
          (\<not> requester_is_creator st msg t \<longrightarrow> st' = st \<and> is_error_reply r)"
    if n: "split_maxsplit1 db (message_text msg) = [cmd, arg]" "key_of arg = Some k"
      "tasks st k = Some t" for cmd arg k t
  proof (cases "requester_is_creator st msg t")
    case True
    from delete_task_named_creator [where key_of = key_of, OF n True] d
    have "st' = st\<lparr>tasks := (tasks st)(k := None)\<rparr>" "r = Deleted k"
      by simp_all
    with True show ?thesis by simp
  next
    case False
    from delete_task_named_error [where key_of = key_of, OF n False] d
    have "st' = st" "is_error_reply r"
      by auto
    with False n(3) show ?thesis by simp
  qed
  have b: "is_error_reply r \<longrightarrow> st' = st"
    using delete_task_error_unchanged [OF d] by blast
  have c: "\<exists>cmd arg t. split_maxsplit1 db (message_text msg) = [cmd, arg] \<and> key_of arg = Some k \<and>
           tasks st k = Some t \<and> requester_is_creator st msg t" if "r = Deleted k" for k
    using delete_task_Deleted [of db key_of st msg st' k] d that by blast
  have A: "\<forall>cmd arg k t. split_maxsplit1 db (message_text msg) = [cmd, arg] \<and> key_of arg = Some k \<and>
        tasks st k = Some t \<longrightarrow>
          (tasks st' k = None \<longleftrightarrow> requester_is_creator st msg t) \<and>
          (requester_is_creator st msg t \<longrightarrow>
             st' = st\<lparr>tasks := (tasks st)(k := None)\<rparr> \<and> r = Deleted k) \<and>
          (\<not> requester_is_creator st msg t \<longrightarrow> st' = st \<and> is_error_reply r)"
  proof (intro allI impI)
    fix cmd arg k t
    assume "split_maxsplit1 db (message_text msg) = [cmd, arg] \<and> key_of arg = Some k \<and>
        tasks st k = Some t"
    then have n: "split_maxsplit1 db (message_text msg) = [cmd, arg]" "key_of arg = Some k"
      "tasks st k = Some t"
      by simp_all
    show "(tasks st' k = None \<longleftrightarrow> requester_is_creator st msg t) \<and>
          (requester_is_creator st msg t \<longrightarrow>
             st' = st\<lparr>tasks := (tasks st)(k := None)\<rparr> \<and> r = Deleted k) \<and>
          (\<not> requester_is_creator st msg t \<longrightarrow> st' = st \<and> is_error_reply r)"
      by (rule a [OF n])
  qed
  have C: "\<forall>k. r = Deleted k \<longrightarrow>
        (\<exists>cmd arg t. split_maxsplit1 db (message_text msg) = [cmd, arg] \<and> key_of arg = Some k \<and>
           tasks st k = Some t \<and> requester_is_creator st msg t)"
    using c by (intro allI impI)
  from A b C show ?thesis by (intro conjI)
qed

lemmas store_defs =
  delete_task_def split_maxsplit1_def example_store_def delete_1_def digit_key_def
  requester_is_creator_def is_error_reply_def ucd_basic_def Let_def

theorem delete_scoped_to_creator_witness:
  "delete_task ucd_basic digit_key example_store \<lparr>from_user = Some 501, message_text = delete_1\<rparr>
     = (example_store\<lparr>tasks := (tasks example_store)(1 := None)\<rparr>, Deleted 1) \<and>
   split_maxsplit1 ucd_basic delete_1 = [[47, 100, 101, 108, 101, 116, 101], [49]] \<and>
   digit_key [49] = Some 1 \<and>
   tasks example_store 1 = Some \<lparr>title = ivan, creator_id = Some 1, assignee_id = None\<rparr> \<and>
   requester_is_creator example_store \<lparr>from_user = Some 501, message_text = delete_1\<rparr>
     \<lparr>title = ivan, creator_id = Some 1, assignee_id = None\<rparr> \<and>
   delete_task ucd_basic digit_key example_store \<lparr>from_user = Some 502, message_text = delete_1\<rparr>
     = (example_store, Not_creator)"
proof -
  have h: "delete_task ucd_basic digit_key example_store
             \<lparr>from_user = Some 501, message_text = delete_1\<rparr>
           = (example_store\<lparr>tasks := (tasks example_store)(1 := None)\<rparr>, Deleted 1)"
    by (simp add: store_defs)
  have s: "split_maxsplit1 ucd_basic delete_1 = [[47, 100, 101, 108, 101, 116, 101], [49]]"
    by (simp add: store_defs)
  have k: "digit_key [49] = Some 1"
    by (simp add: store_defs)
  have t: "tasks example_store 1 = Some \<lparr>title = ivan, creator_id = Some 1, assignee_id = None\<rparr>"
    by (simp add: store_defs)
  have c: "requester_is_creator example_store \<lparr>from_user = Some 501, message_text = delete_1\<rparr>
     \<lparr>title = ivan, creator_id = Some 1, assignee_id = None\<rparr>"
    by (simp add: store_defs)
  have n: "delete_task ucd_basic digit_key example_store
             \<lparr>from_user = Some 502, message_text = delete_1\<rparr> = (example_store, Not_creator)"
    by (simp add: store_defs)
  show ?thesis
    using delete_scoped_to_creator [OF h] by (simp only: h s k t c n simp_thms)
qed

section \<open>Due date\<close>






lemma chain_cherez_days:
  "due_date_of_match db now pat_cherez_days m =
     (case int_group1 db m of
        Inl e \<Rightarrow> Inl e
      | Inr days \<Rightarrow> now_plus now (timedelta_days days))"
  by (simp add: due_date_of_match_def pattern_defs)


text \<open>
  A match found by \<open>search\<close> is a way to match at some suffix of the text. For the
  two \<open>cherez\<close> patterns, group 1 of a match is a non-empty string of decimal digits
  of the text.
\<close>

lemma search_in:
  "search db r s = Some (Match g) \<Longrightarrow> \<exists>t s'. suffix t s \<and> (s', g) \<in> set (rmatch db r t)"
proof (induction s)
  case Nil
  then show ?case
    by (cases "rmatch db r []") (auto split: prod.splits)
next
  case (Cons x xs)
  show ?case
  proof (cases "rmatch db r (x # xs)")
    case Nil
    with Cons.prems have "search db r xs = Some (Match g)"
      by simp
    from Cons.IH [OF this] show ?thesis
      by (auto simp: suffix_Cons)
  next
    case (Cons a as)
    with Cons.prems have "(fst a, g) \<in> set (rmatch db r (x # xs))"
      by (cases a) auto
    then show ?thesis
      by (meson suffix_order.refl)
  qed
qed

lemma rmatch_digits_group:
  assumes "(sa, ga) \<in> set (rmatch db (Group (Rep Digit 1 None)) u)"
  shows "\<exists>j. 1 \<le> j \<and> j \<le> length (takeWhile (in_class db Digit) u) \<and> ga = Some (take j u)"
proof -
  from assms obtain j where j: "1 \<le> j" "j \<le> length (takeWhile (in_class db Digit) u)"
    and sa: "sa = drop j u" and ga: "ga = Some (take (length u - length sa) u)"
    by (auto simp: Let_def simp del: upt_Suc)
  have "length (takeWhile (in_class db Digit) u) \<le> length u"
    by (rule length_takeWhile_le)
  with j sa have "length u - length sa = j"
    by simp
  with j ga show ?thesis
    by auto
qed

lemma rmatch_Seq_iff:
  "(s', g) \<in> set (rmatch db (Seq r1 r2) s) \<longleftrightarrow>
     (\<exists>s1 g1 g2. (s1, g1) \<in> set (rmatch db r1 s) \<and> (s', g2) \<in> set (rmatch db r2 s1) \<and>
        g = (if g2 = None then g1 else g2))"
  by (simp only: rmatch.simps) force

lemma rmatch_Lit_iff:
  "(s', g) \<in> set (rmatch db (Lit p) s) \<longleftrightarrow> prefix p s \<and> s' = drop (length p) s \<and> g = None"
  by auto

lemma rmatch_number:
  assumes "(s', g) \<in> set (rmatch db (Seq (Lit p) (Seq (Group (Rep Digit 1 None)) rest)) t)"
    and rest: "\<And>s1 s2 g2. (s2, g2) \<in> set (rmatch db rest s1) \<Longrightarrow> g2 = None"
  shows "\<exists>u j. suffix u t \<and> 1 \<le> j \<and> j \<le> length (takeWhile (in_class db Digit) u) \<and>
           g = Some (take j u)"
proof -
  let ?u = "drop (length p) t"
  from assms(1) obtain g' where
    inner: "(s', g') \<in> set (rmatch db (Seq (Group (Rep Digit 1 None)) rest) ?u)"
    and g: "g = (if g' = None then None else g')"
    unfolding rmatch_Seq_iff [of s' g db "Lit p"] rmatch_Lit_iff by blast
  from inner obtain sa ga gb where
    a: "(sa, ga) \<in> set (rmatch db (Group (Rep Digit 1 None)) ?u)"
    and b: "(s', gb) \<in> set (rmatch db rest sa)"
    and g': "g' = (if gb = None then ga else gb)"
    unfolding rmatch_Seq_iff by blast
  from rest [OF b] g' have "g' = ga"
    by simp
  with rmatch_digits_group [OF a] g obtain j where
    "1 \<le> j" "j \<le> length (takeWhile (in_class db Digit) ?u)" "g = Some (take j ?u)"
    by auto
  moreover have "suffix ?u t"
    by (rule suffix_drop)
  ultimately show ?thesis
    by blast
qed

lemma unit_no_group:
  "(s2, g2) \<in> set (rmatch db (Seq (Lit [32]) (Alt (Lit a) (Alt (Lit b) (Lit c)))) s1) \<Longrightarrow>
   g2 = None"
  by (auto split: if_splits)

lemma take_digits:
  assumes "1 \<le> j" and "j \<le> length (takeWhile P u)"
  shows "take j u \<noteq> [] \<and> (\<forall>c \<in> set (take j u). P c) \<and> length (take j u) \<le> length u"
proof -
  have "u = takeWhile P u @ dropWhile P u"
    by simp
  then have "take j u = take j (takeWhile P u @ dropWhile P u)"
    by simp
  also have "\<dots> = take j (takeWhile P u)"
    using assms(2) by (simp del: takeWhile_dropWhile_id)
  finally have eq: "take j u = take j (takeWhile P u)" .
  have all: "\<forall>c \<in> set (take j u). P c"
    unfolding eq by (meson in_set_takeD set_takeWhileD)
  have ne: "take j u \<noteq> []"
    using assms length_takeWhile_le [of P u] by (cases u) auto
  have le: "length (take j u) \<le> length u"
    by simp
  from ne all le show ?thesis
    by (intro conjI)
qed

lemma number_group:
  assumes "search db (Seq (Lit p) (Seq (Group (Rep Digit 1 None))
             (Seq (Lit [32]) (Alt (Lit a) (Alt (Lit b) (Lit c)))))) s = Some m"
  shows "\<exists>ds. m = Match (Some ds) \<and> ds \<noteq> [] \<and> (\<forall>c \<in> set ds. digit_val db c \<noteq> None) \<and>
           length ds \<le> length s"
proof -
  obtain g where m: "m = Match g"
    by (cases m)
  from search_in [OF assms [unfolded m]] obtain t s' where
    t: "suffix t s" and
    r: "(s', g) \<in> set (rmatch db (Seq (Lit p) (Seq (Group (Rep Digit 1 None))
             (Seq (Lit [32]) (Alt (Lit a) (Alt (Lit b) (Lit c)))))) t)"
    by blast
  have "\<exists>u j. suffix u t \<and> 1 \<le> j \<and> j \<le> length (takeWhile (in_class db Digit) u) \<and>
           g = Some (take j u)"
    by (rule rmatch_number [OF r]) (rule unit_no_group)
  then obtain u j where
    u: "suffix u t" "1 \<le> j" "j \<le> length (takeWhile (in_class db Digit) u)"
      "g = Some (take j u)"
    by blast
  from take_digits [OF u(2,3)] have
    d: "take j u \<noteq> []" "\<forall>c \<in> set (take j u). in_class db Digit c"
      "length (take j u) \<le> length u"
    by blast+
  from t u(1) have "length u \<le> length s"
    by (meson suffix_length_le order_trans)
  with d m u(4) show ?thesis
    by auto
qed

lemma those_digits:
  "\<forall>c \<in> set ds. f c \<noteq> None \<Longrightarrow> \<exists>vs. those (map f ds) = Some vs"
  by (induction ds) auto

lemma int_group1_number:
  assumes "search db (Seq (Lit p) (Seq (Group (Rep Digit 1 None))
             (Seq (Lit [32]) (Alt (Lit a) (Alt (Lit b) (Lit c)))))) s = Some m"
      (is "search db ?r s = Some m")
  shows "\<exists>ds. group1 m = Some ds \<and>
           int_group1 db m = (if length ds > int_max_str_digits then Inl ValueError
                              else Inr (captured_number db ?r s)) \<and>
           0 \<le> captured_number db ?r s"
proof -
  from number_group [OF assms(1)] obtain ds where
    ds: "m = Match (Some ds)" "ds \<noteq> []" "\<forall>c \<in> set ds. digit_val db c \<noteq> None"
    by blast
  from those_digits [OF ds(3)] obtain n where n: "decimal db ds = Some n"
    by (auto simp: decimal_def)
  from ds(1,2) n have "int_group1 db m = (if length ds > int_max_str_digits then Inl ValueError
                              else Inr (int n))"
    by (simp add: int_group1_def py_int_def)
  moreover from assms(1) ds(1) n have "captured_number db ?r s = int n"
    by (simp add: captured_number_def)
  moreover from ds(1) have "group1 m = Some ds"
    by simp
  ultimately show ?thesis
    by simp
qed

lemma int_group1_days:
  assumes "search db pat_cherez_days s = Some m"
  shows "\<exists>ds. group1 m = Some ds \<and>
           int_group1 db m = (if length ds > int_max_str_digits then Inl ValueError
                              else Inr (captured_number db pat_cherez_days s)) \<and>
           0 \<le> captured_number db pat_cherez_days s"
  using assms unfolding pat_cherez_days_def by (rule int_group1_number)























text \<open>
  The limit of \<open>int\<close> is met as well: when a \<open>cherez\<close> pattern for days governs and
  its digits number more than 4300, the call raises \<open>ValueError\<close>.
\<close>

lemma long_number_raises:
  assumes "search db pat_k_date (lower db txt) = None"
    and "search db pat_do_date (lower db txt) = None"
    and "search db pat_zavtra (lower db txt) = None"
    and "search db pat_next_week (lower db txt) = None"
    and "search db pat_cherez_days (lower db txt) = Some m"
    and "group1 m = Some g" and "length g > int_max_str_digits"
  shows "extract_task_info db now txt = Inl ValueError"
proof -
  from int_group1_days [OF assms(5)] assms(6,7) have "int_group1 db m = Inl ValueError"
    by auto
  then have "due_date_of_match db now pat_cherez_days m = Inl ValueError"
    by (simp add: chain_cherez_days)
  with assms(1-5) have "due_date_loop db now txt date_patterns = Inl ValueError"
    by (simp add: date_patterns_def)
  then show ?thesis
    by (simp add: extract_task_info_def Let_def)
qed

text \<open>
  The order of the list governs, not the position in the text: in \<open>zavtra k 5 maya\<close>
  the keyword \<open>zavtra\<close> comes first, yet the day-and-month pattern, listed first,
  matches and leaves the due date absent.
\<close>

lemma first_listed_pattern_governs:
  "extract_task_info ucd_basic now tomorrow_by_5_may = Inr (tomorrow_by_5_may, [], None, ''medium'')"
  by (simp add: eval_defs example_defs)

section \<open>Mentions\<close>

lemma take_run: "take (length (takeWhile P xs)) xs = takeWhile P xs"
  by (induction xs) auto

lemma drop_run: "drop (length (takeWhile P xs)) xs = dropWhile P xs"
  by (induction xs) auto

lemma rmatch_word_group:
  "rmatch db (Group (Rep Word 1 None)) cs =
     (if takeWhile (in_class db Word) cs = [] then []
      else (dropWhile (in_class db Word) cs, Some (takeWhile (in_class db Word) cs)) #
           map (\<lambda>j. (drop j cs, Some (take j cs)))
               (rev [1 ..< length (takeWhile (in_class db Word) cs)]))"
proof -
  let ?n = "length (takeWhile (in_class db Word) cs)"
  have le: "?n \<le> length cs"
    by (rule length_takeWhile_le)
  have m: "map (\<lambda>(s1, g). (s1, Some (take (length cs - length s1) cs)))
             (map (\<lambda>j. (drop j cs, None)) js) = map (\<lambda>j. (drop j cs, Some (take j cs))) js"
    if "\<forall>j \<in> set js. j \<le> length cs" for js
    using that by (induction js) auto
  have r: "rmatch db (Group (Rep Word 1 None)) cs =
             map (\<lambda>j. (drop j cs, Some (take j cs))) (rev [1 ..< Suc ?n])"
    using le by (simp add: Let_def m del: upt_Suc)
  show ?thesis
  proof (cases "?n = 0")
    case True
    with r show ?thesis by simp
  next
    case False
    then have u: "rev [1 ..< Suc ?n] = ?n # rev [1 ..< ?n]"
      by (simp add: Suc_le_eq)
    show ?thesis
      unfolding r u using False by (simp add: take_run drop_run)
  qed
qed

lemma rmatch_word_group_Suc:
  "rmatch db (Group (Rep Word (Suc 0) None)) cs =
     (if takeWhile (in_class db Word) cs = [] then []
      else (dropWhile (in_class db Word) cs, Some (takeWhile (in_class db Word) cs)) #
           map (\<lambda>j. (drop j cs, Some (take j cs)))
               (rev [1 ..< length (takeWhile (in_class db Word) cs)]))"
  using rmatch_word_group [of db cs] by (simp only: One_nat_def)

lemma rmatch_mention_Nil: "rmatch db mention_pattern [] = []"
  by (simp add: mention_pattern_def)

lemma rmatch_mention_Cons:
  "rmatch db mention_pattern (c # cs) =
     (if c = 64 then map (\<lambda>(s2, g2). (s2, g2)) (rmatch db (Group (Rep Word 1 None)) cs) else [])"
proof -
  have "map (\<lambda>(s2, g2). (s2, if g2 = None then None else g2)) xs = map (\<lambda>(s2, g2). (s2, g2)) xs"
    for xs :: "(ustr \<times> ustr option) list"
    by (induction xs) auto
  then show ?thesis
    unfolding mention_pattern_def by (simp del: rmatch.simps(2,6))
qed

lemma search_mention_Nil: "search db mention_pattern [] = None"
  by (simp add: rmatch_mention_Nil)

lemma search_mention_Cons:
  "search db mention_pattern (c # cs) =
     (if c = 64 \<and> takeWhile (in_class db Word) cs \<noteq> []
      then Some (Match (Some (takeWhile (in_class db Word) cs)))
      else search db mention_pattern cs)"
  by (simp add: rmatch_mention_Cons rmatch_word_group_Suc del: rmatch.simps)

lemma takeWhile_not_Nil: "takeWhile P xs \<noteq> [] \<longleftrightarrow> (\<exists>y ys. xs = y # ys \<and> P y)"
  by (cases xs) auto

lemma mention_None_iff:
  "search db mention_pattern s = None \<longleftrightarrow>
     \<not> (\<exists>pre c post. s = pre @ 64 # c # post \<and> in_class db Word c)"
proof (induction s)
  case Nil
  show ?case by (simp add: rmatch_mention_Nil)
next
  case (Cons x xs)
  show ?case
  proof (cases "x = 64 \<and> takeWhile (in_class db Word) xs \<noteq> []")
    case True
    then obtain y ys where "xs = y # ys" "in_class db Word y"
      by (auto simp: takeWhile_not_Nil)
    with True have "x # xs = [] @ 64 # y # ys \<and> in_class db Word y"
      by simp
    then have "\<exists>pre c post. x # xs = pre @ 64 # c # post \<and> in_class db Word c"
      by blast
    with True show ?thesis
      by (auto simp add: search_mention_Cons simp del: search.simps)
  next
    case False
    from False have step: "search db mention_pattern (x # xs) = search db mention_pattern xs"
      by (auto simp add: search_mention_Cons simp del: search.simps)
    have eq: "(\<exists>pre c post. x # xs = pre @ 64 # c # post \<and> in_class db Word c) \<longleftrightarrow>
          (\<exists>pre c post. xs = pre @ 64 # c # post \<and> in_class db Word c)"
    proof
      assume "\<exists>pre c post. x # xs = pre @ 64 # c # post \<and> in_class db Word c"
      then obtain pre c post where d: "x # xs = pre @ 64 # c # post" "in_class db Word c"
        by blast
      show "\<exists>pre c post. xs = pre @ 64 # c # post \<and> in_class db Word c"
      proof (cases pre)
        case Nil
        with d False show ?thesis by (auto simp: takeWhile_not_Nil)
      next
        case (Cons p ps)
        with d show ?thesis by auto
      qed
    next
      assume "\<exists>pre c post. xs = pre @ 64 # c # post \<and> in_class db Word c"
      then obtain pre c post where "xs = pre @ 64 # c # post" "in_class db Word c"
        by blast
      then have "x # xs = (x # pre) @ 64 # c # post \<and> in_class db Word c"
        by simp
      then show "\<exists>pre c post. x # xs = pre @ 64 # c # post \<and> in_class db Word c"
        by blast
    qed
    show ?thesis
      unfolding step eq by (rule Cons.IH)
  qed
qed

lemma mention_Some:
  "search db mention_pattern s = Some m \<Longrightarrow>
     \<exists>pre h post. m = Match (Some h) \<and> s = pre @ 64 # h @ post \<and> h \<noteq> [] \<and>
       h = takeWhile (in_class db Word) (h @ post) \<and>
       \<not> (\<exists>a c b. pre @ [64] = a @ 64 # c # b \<and> in_class db Word c)"
proof (induction s)
  case Nil
  then show ?case by (simp add: rmatch_mention_Nil)
next
  case (Cons x xs)
  let ?W = "in_class db Word"
  show ?case
  proof (cases "x = 64 \<and> takeWhile ?W xs \<noteq> []")
    case True
    with Cons.prems have m: "m = Match (Some (takeWhile ?W xs))"
      by (auto simp add: search_mention_Cons simp del: search.simps)
    have "x # xs = [] @ 64 # takeWhile ?W xs @ dropWhile ?W xs"
      using True by simp
    moreover have "takeWhile ?W xs = takeWhile ?W (takeWhile ?W xs @ dropWhile ?W xs)"
      by simp
    moreover have "\<not> (\<exists>a c b. [] @ [64] = a @ 64 # c # b \<and> ?W c)"
      by (auto simp: Cons_eq_append_conv)
    ultimately show ?thesis
      using m True by blast
  next
    case False
    with Cons.prems have "search db mention_pattern xs = Some m"
      by (auto simp add: search_mention_Cons simp del: search.simps)
    from Cons.IH [OF this] obtain pre h post where
      ih: "m = Match (Some h)" "xs = pre @ 64 # h @ post" "h \<noteq> []"
        "h = takeWhile ?W (h @ post)"
        "\<not> (\<exists>a c b. pre @ [64] = a @ 64 # c # b \<and> ?W c)"
      by blast
    have first: "\<not> (\<exists>a c b. (x # pre) @ [64] = a @ 64 # c # b \<and> ?W c)"
    proof
      assume "\<exists>a c b. (x # pre) @ [64] = a @ 64 # c # b \<and> ?W c"
      then obtain a c b where d: "(x # pre) @ [64] = a @ 64 # c # b" "?W c"
        by blast
      show False
      proof (cases a)
        case Nil
        with d have x: "x = 64" and p: "pre @ [64] = c # b"
          by simp_all
        from p ih(2) have "xs = c # b @ h @ post"
          by (metis append_Cons append_assoc append_Nil)
        with d(2) have "takeWhile ?W xs \<noteq> []"
          by simp
        with x False show False by simp
      next
        case (Cons a1 as)
        with d have "pre @ [64] = as @ 64 # c # b"
          by simp
        with d(2) ih(5) show False by blast
      qed
    qed
    from ih(2) have "x # xs = (x # pre) @ 64 # h @ post"
      by simp
    with ih(1,3,4) first show ?thesis
      by blast
  qed
qed

lemma mention_all_word:
  assumes "h = takeWhile P (h @ post)"
  shows "(\<forall>c \<in> set h. P c) \<and> (post = [] \<or> \<not> P (hd post))"
proof -
  from assms have all: "\<forall>c \<in> set h. P c"
    by (metis set_takeWhileD)
  then have "takeWhile P (h @ post) = h @ takeWhile P post"
    by (simp add: takeWhile_append2)
  with assms have "takeWhile P post = []"
    by simp
  then have "post = [] \<or> \<not> P (hd post)"
    by (cases post) (auto split: if_splits)
  with all show ?thesis
    by simp
qed

text \<open>
  Claim C6: for the second example sentence the mention is \<open>ivan\<close> and the due date
  is absent (no digit follows \<open>do\<close>). In general the mention is absent exactly when
  no at-sign of the text, as written, is followed by a word character; otherwise it is
  the longest run of word characters after the first at-sign that is followed by one.
\<close>

theorem first_mention_only:
  "extract_user_mention ucd_basic example_client = Some ivan \<and>
   extract_task_info ucd_basic now example_client = Inr (example_client, [], None, ''medium'') \<and>
   (extract_user_mention db text = None \<longleftrightarrow>
      \<not> (\<exists>pre c post. text = pre @ 64 # c # post \<and> in_class db Word c)) \<and>
   (\<forall>h. extract_user_mention db text = Some h \<longrightarrow>
      (\<exists>pre post. text = pre @ 64 # h @ post \<and> h \<noteq> [] \<and> (\<forall>c \<in> set h. in_class db Word c) \<and>
         (post = [] \<or> \<not> in_class db Word (hd post)) \<and>
         \<not> (\<exists>a c b. pre @ [64] = a @ 64 # c # b \<and> in_class db Word c)))"
proof -
  have ex1: "extract_user_mention ucd_basic example_client = Some ivan"
    by (simp add: extract_user_mention_def mention_pattern_def example_defs ucd_basic_def)
  have ex2: "extract_task_info ucd_basic now example_client =
               Inr (example_client, [], None, ''medium'')"
    by (simp add: eval_defs example_defs)
  have none: "extract_user_mention db text = None \<longleftrightarrow>
      \<not> (\<exists>pre c post. text = pre @ 64 # c # post \<and> in_class db Word c)"
  proof (cases "search db mention_pattern text")
    case None
    then show ?thesis
      using mention_None_iff [of db "text"] by (simp add: extract_user_mention_def)
  next
    case (Some m)
    with mention_Some [OF Some] mention_None_iff [of db "text"] show ?thesis
      by (auto simp: extract_user_mention_def)
  qed
  have some: "\<exists>pre post. text = pre @ 64 # h @ post \<and> h \<noteq> [] \<and> (\<forall>c \<in> set h. in_class db Word c) \<and>
         (post = [] \<or> \<not> in_class db Word (hd post)) \<and>
         \<not> (\<exists>a c b. pre @ [64] = a @ 64 # c # b \<and> in_class db Word c)"
    if "extract_user_mention db text = Some h" for h
  proof -
    from that obtain m where m: "search db mention_pattern text = Some m" "group1 m = Some h"
      by (auto simp: extract_user_mention_def split: option.splits)
    from mention_Some [OF m(1)] m(2) obtain pre post where
      d: "text = pre @ 64 # h @ post" "h \<noteq> []" "h = takeWhile (in_class db Word) (h @ post)"
        "\<not> (\<exists>a c b. pre @ [64] = a @ 64 # c # b \<and> in_class db Word c)"
      by auto
    from mention_all_word [OF d(3)] d(1,2,4) show ?thesis
      by blast
  qed
  from ex1 ex2 none some show ?thesis
    by blast
qed

theorem first_mention_only_witness:
  "extract_user_mention ucd_basic two_mentions = Some ivan \<and>
   two_mentions = [64, 32] @ 64 # ivan @ [32, 64, 98, 111, 98] \<and>
   extract_user_mention ucd_basic [32, 64, 32] = None"
proof -
  have m: "extract_user_mention ucd_basic two_mentions = Some ivan"
    by (simp add: extract_user_mention_def mention_pattern_def example_defs ucd_basic_def)
  have n: "extract_user_mention ucd_basic [32, 64, 32] = None"
    by (simp add: extract_user_mention_def mention_pattern_def ucd_basic_def)
  from first_mention_only [of new_year_2025 ucd_basic two_mentions] m n show ?thesis
    by (simp only: two_mentions_def simp_thms)
qed

end
